theory Spec2Isabelle
  imports Main "HOL-Library.Word"
begin

unbundle bit_operations_syntax

section \<open>Machine model\<close>

text \<open>
  The allocator of \<^verbatim>\<open>src/main.c\<close> works on \<^verbatim>\<open>size_t\<close> values and on
  \<^verbatim>\<open>uint8_t *\<close> pointers. Both are taken as 64-bit words: \<^verbatim>\<open>size_t\<close> arithmetic
  is arithmetic modulo \<open>2 ^ 64\<close>, a pointer is its address, pointer addition is
  addition of addresses (it wraps like the machine instruction does) and pointer comparison
  is the unsigned comparison of addresses. The null pointer is address \<open>0\<close>.
\<close>

type_synonym size_t = "64 word"
type_synonym addr = "64 word"

definition ARENA_GUARD_PAGES :: int where
  "ARENA_GUARD_PAGES = 1"

definition ARENA_ALIGNMENT :: size_t where
  "ARENA_ALIGNMENT = 8"

definition SIZE_MAX :: size_t where
  "SIZE_MAX = 0xFFFFFFFFFFFFFFFF"

text \<open>\<^verbatim>\<open>return (x + (a - 1)) & ~(a - 1);\<close>\<close>

definition align_up :: "size_t \<Rightarrow> size_t \<Rightarrow> size_t" where
  "align_up x a = (x + (a - 1)) AND NOT (a - 1)"

record Arena =
  base :: addr
  cursor :: addr
  commit :: addr
  limit :: addr
  reserve_size :: size_t
  commit_step :: size_t

section \<open>The operating system\<close>

text \<open>
  The virtual-memory primitives are calls into the operating system. The model keeps the
  list of the calls made so far, and the answers of the system as functions of that
  history and of the call's arguments: \<open>reserve_ans\<close> is the address \<^verbatim>\<open>os_reserve\<close>
  returns (\<open>0\<close> when \<^verbatim>\<open>mmap\<close> fails), \<open>commit_ans\<close> says whether \<^verbatim>\<open>os_commit\<close>
  succeeds. The page size is a constant of the system. The POSIX branch of the source is
  the one modelled (\<^verbatim>\<open>os_release\<close> takes the size as well).
\<close>

datatype os_call =
    Reserve size_t
  | Guard addr size_t
  | Commit addr size_t
  | Release addr size_t

record os =
  page :: size_t
  reserve_ans :: "os_call list \<Rightarrow> size_t \<Rightarrow> addr"
  commit_ans :: "os_call list \<Rightarrow> addr \<Rightarrow> size_t \<Rightarrow> bool"
  calls :: "os_call list"

definition os_page_size :: "os \<Rightarrow> size_t" where
  "os_page_size w = page w"

definition os_reserve :: "os \<Rightarrow> size_t \<Rightarrow> addr \<times> os" where
  "os_reserve w n = (reserve_ans w (calls w) n, w\<lparr>calls := calls w @ [Reserve n]\<rparr>)"

definition os_commit :: "os \<Rightarrow> addr \<Rightarrow> size_t \<Rightarrow> bool \<times> os" where
  "os_commit w p n = (commit_ans w (calls w) p n, w\<lparr>calls := calls w @ [Commit p n]\<rparr>)"

definition os_release :: "os \<Rightarrow> addr \<Rightarrow> size_t \<Rightarrow> os" where
  "os_release w p n = w\<lparr>calls := calls w @ [Release p n]\<rparr>"

definition os_guard :: "os \<Rightarrow> addr \<Rightarrow> size_t \<Rightarrow> os" where
  "os_guard w p n = w\<lparr>calls := calls w @ [Guard p n]\<rparr>"

section \<open>Arena API\<close>

text \<open>
  Every operation takes the arena the pointer \<^verbatim>\<open>a\<close> points to and the state of the
  system, and returns its result with the arena and the system as it leaves them.
  \<^verbatim>\<open>arena_init\<close> returns the C truth value (\<open>1\<close> or \<open>0\<close>).
\<close>

definition arena_init :: "Arena \<Rightarrow> os \<Rightarrow> size_t \<Rightarrow> size_t \<Rightarrow> int \<times> Arena \<times> os" where
  "arena_init a w reserve_size0 commit_step0 =
     (let pg = os_page_size w;
          guard = (if ARENA_GUARD_PAGES \<noteq> 0 then pg else 0);
          reserve_size1 = align_up reserve_size0 pg;
          commit_step1 = align_up commit_step0 pg;
          total = reserve_size1 + guard * 2;
          (mem, w1) = os_reserve w total
      in if mem = 0 then (0, a, w1)
         else
           let w2 = (if ARENA_GUARD_PAGES \<noteq> 0
                     then os_guard (os_guard w1 mem guard) (mem + guard + reserve_size1) guard
                     else w1)
           in (1,
               \<lparr>base = mem + guard,
                cursor = mem + guard,
                commit = mem + guard,
                limit = mem + guard + reserve_size1,
                reserve_size = reserve_size1,
                commit_step = commit_step1\<rparr>,
               w2))"

definition arena_destroy :: "Arena \<Rightarrow> os \<Rightarrow> os" where
  "arena_destroy a w =
     os_release w
       (base a - (if ARENA_GUARD_PAGES \<noteq> 0 then os_page_size w else 0))
       (reserve_size a + (if ARENA_GUARD_PAGES \<noteq> 0 then os_page_size w * 2 else 0))"

definition arena_reset :: "Arena \<Rightarrow> Arena" where
  "arena_reset a = a\<lparr>cursor := base a\<rparr>"

text \<open>
  \<^verbatim>\<open>arena_alloc\<close> returns \<open>None\<close> where the source returns \<^verbatim>\<open>NULL\<close> and
  \<open>Some p\<close> where it returns the pointer \<open>p\<close>.
\<close>

definition arena_alloc :: "Arena \<Rightarrow> os \<Rightarrow> size_t \<Rightarrow> addr option \<times> Arena \<times> os" where
  "arena_alloc a w sz =
     (let n = align_up sz ARENA_ALIGNMENT;
          next = cursor a + n
      in if next > limit a then (None, a, w)
         else if next > commit a then
           (let need = align_up (next - commit a) (commit_step a);
                (ok, w1) = os_commit w (commit a) need
            in if \<not> ok then (None, a, w1)
               else (Some (cursor a), a\<lparr>commit := commit a + need, cursor := next\<rparr>, w1))
         else (Some (cursor a), a\<lparr>cursor := next\<rparr>, w))"

section \<open>Derived notions\<close>

text \<open>The ordering invariant of the data model: \<open>base \<le> cursor \<le> commit \<le> limit\<close>.\<close>

definition ordered :: "Arena \<Rightarrow> bool" where
  "ordered a \<longleftrightarrow> base a \<le> cursor a \<and> cursor a \<le> commit a \<and> commit a \<le> limit a"

text \<open>
  A run of \<^verbatim>\<open>arena_alloc\<close> calls, one per requested size, each on the arena and the
  system the call before left. The results are returned in call order.
\<close>

fun alloc_seq :: "Arena \<Rightarrow> os \<Rightarrow> size_t list \<Rightarrow> addr option list \<times> Arena \<times> os" where
  "alloc_seq a w [] = ([], a, w)"
| "alloc_seq a w (s # ss) =
     (case arena_alloc a w s of
        (p, a1, w1) \<Rightarrow> (case alloc_seq a1 w1 ss of (ps, a2, w2) \<Rightarrow> (p # ps, a2, w2)))"

text \<open>
  Every call of the run computes a candidate cursor that stays at or below the commit
  boundary.
\<close>

fun within_commit :: "Arena \<Rightarrow> os \<Rightarrow> size_t list \<Rightarrow> bool" where
  "within_commit a w [] = True"
| "within_commit a w (s # ss) =
     (cursor a + align_up s ARENA_ALIGNMENT \<le> commit a \<and>
      (case arena_alloc a w s of (p, a1, w1) \<Rightarrow> within_commit a1 w1 ss))"

text \<open>
  The byte ranges \<open>[p, p + s)\<close> and \<open>[q, q + t)\<close> of two allocations share an address.
\<close>

definition ranges_overlap :: "addr \<Rightarrow> size_t \<Rightarrow> addr \<Rightarrow> size_t \<Rightarrow> bool" where
  "ranges_overlap p s q t \<longleftrightarrow>
     max (unat p) (unat q) < min (unat p + unat s) (unat q + unat t)"

fun disjoint_allocs :: "(addr \<times> size_t) list \<Rightarrow> bool" where
  "disjoint_allocs [] = True"
| "disjoint_allocs ((p, s) # xs) =
     (list_all (\<lambda>(q, t). \<not> ranges_overlap p s q t) xs \<and> disjoint_allocs xs)"

text \<open>Rounding a natural number up to the next multiple of \<open>m\<close>.\<close>

definition round_up :: "nat \<Rightarrow> nat \<Rightarrow> nat" where
  "round_up n m = (n + m - 1) div m * m"

fun is_commit :: "os_call \<Rightarrow> bool" where
  "is_commit (Commit p n) = True"
| "is_commit (Reserve n) = False"
| "is_commit (Guard p n) = False"
| "is_commit (Release p n) = False"

text \<open>\<open>commit - base\<close> is a whole number of commit steps.\<close>

definition whole_steps :: "Arena \<Rightarrow> bool" where
  "whole_steps a \<longleftrightarrow> unat (commit_step a) dvd unat (commit a - base a)"

subsection \<open>A concrete system and arena\<close>

text \<open>
  A system with 4 KiB pages whose reservations all land at address \<open>0xF000\<close> and whose
  commits all succeed; an arena structure before initialisation; and the arena and system
  after \<^verbatim>\<open>arena_init(&a, 65536, 65536)\<close> there.
\<close>

definition ex_os :: os where
  "ex_os = \<lparr>page = 4096, reserve_ans = (\<lambda>_ _. 0xF000), commit_ans = (\<lambda>_ _ _. True), calls = []\<rparr>"

definition ex_arena0 :: Arena where
  "ex_arena0 = \<lparr>base = 0, cursor = 0, commit = 0, limit = 0, reserve_size = 0, commit_step = 0\<rparr>"

definition ex_arena :: Arena where
  "ex_arena = \<lparr>base = 0x10000, cursor = 0x10000, commit = 0x10000, limit = 0x20000,
                reserve_size = 65536, commit_step = 65536\<rparr>"

definition ex_os1 :: os where
  "ex_os1 = ex_os\<lparr>calls := [Reserve 73728, Guard 0xF000 4096, Guard 0x20000 4096]\<rparr>"

text \<open>The same arena with every byte handed out, and after some use.\<close>

definition ex_full :: Arena where
  "ex_full = ex_arena\<lparr>cursor := 0x20000, commit := 0x20000\<rparr>"

definition ex_used :: Arena where
  "ex_used = ex_arena\<lparr>cursor := 0x10100, commit := 0x20000\<rparr>"

text \<open>
  The arenas and systems that \<^verbatim>\<open>arena_init\<close> produces on \<open>ex_os\<close> for other
  arguments: \<open>(0, 65536)\<close>, \<open>(12288, 8192)\<close>, \<open>(65536, 12288)\<close> and
  \<open>(1048576, 65536)\<close>; a system that refuses every reservation; and the system
  \<open>ex_os1\<close> refusing every commit.
\<close>

definition ex_empty :: Arena where
  "ex_empty = \<lparr>base = 0x10000, cursor = 0x10000, commit = 0x10000, limit = 0x10000,
                reserve_size = 0, commit_step = 65536\<rparr>"

definition ex_os2 :: os where
  "ex_os2 = ex_os\<lparr>calls := [Reserve 8192, Guard 0xF000 4096, Guard 0x10000 4096]\<rparr>"

definition ex_small :: Arena where
  "ex_small = \<lparr>base = 0x10000, cursor = 0x10000, commit = 0x10000, limit = 0x13000,
                reserve_size = 12288, commit_step = 8192\<rparr>"

definition ex_os3 :: os where
  "ex_os3 = ex_os\<lparr>calls := [Reserve 20480, Guard 0xF000 4096, Guard 0x13000 4096]\<rparr>"

definition ex_odd :: Arena where
  "ex_odd = ex_arena\<lparr>commit_step := 12288\<rparr>"

definition ex_big :: Arena where
  "ex_big = \<lparr>base = 0x10000, cursor = 0x10000, commit = 0x10000, limit = 0x110000,
              reserve_size = 1048576, commit_step = 65536\<rparr>"

definition ex_os4 :: os where
  "ex_os4 = ex_os\<lparr>calls := [Reserve 1056768, Guard 0xF000 4096, Guard 0x110000 4096]\<rparr>"

definition ex_os_denied :: os where
  "ex_os_denied = ex_os\<lparr>reserve_ans := \<lambda>_ _. 0\<rparr>"

definition ex_os_tight :: os where
  "ex_os_tight = ex_os1\<lparr>commit_ans := \<lambda>_ _ _. False\<rparr>"

subsection \<open>The invariant of a well-configured arena\<close>

text \<open>
  The commit step is the power of two \<open>2 ^ k\<close>, the fields are ordered, and both
  \<open>commit - base\<close> and \<open>limit - base\<close> are whole numbers of commit steps.
\<close>

definition steady :: "nat \<Rightarrow> Arena \<Rightarrow> bool" where
  "steady k a \<longleftrightarrow>
     k < 64 \<and> commit_step a = 2 ^ k \<and> ordered a \<and>
     2 ^ k dvd unat (commit a - base a) \<and> 2 ^ k dvd unat (limit a - base a)"

text \<open>The cursor is a multiple of the allocation alignment away from \<open>base\<close>.\<close>

definition aligned8 :: "Arena \<Rightarrow> bool" where
  "aligned8 a \<longleftrightarrow> unat ARENA_ALIGNMENT dvd unat (cursor a - base a)"

section \<open>Basic facts\<close>

lemma ex_init: "arena_init ex_arena0 ex_os 65536 65536 = (1, ex_arena, ex_os1)"
  by (simp add: arena_init_def ex_os_def ex_arena0_def ex_arena_def ex_os1_def os_page_size_def
      os_reserve_def os_guard_def align_up_def ARENA_GUARD_PAGES_def Let_def)

lemma ex_os_simps:
  "page ex_os = 4096" "calls ex_os = []" "reserve_ans ex_os l n = 0xF000"
  "commit_ans ex_os l p n = True"
  by (simp_all add: ex_os_def)

lemma ex_os1_simps:
  "page ex_os1 = 4096" "calls ex_os1 = [Reserve 73728, Guard 0xF000 4096, Guard 0x20000 4096]"
  "commit_ans ex_os1 l p n = True"
  by (simp_all add: ex_os1_def ex_os_def)

lemma align_up_0 [simp]: "align_up 0 a = 0"
  by (simp add: align_up_def)

lemma align_up_64: "align_up 64 ARENA_ALIGNMENT = 64"
  by (simp add: align_up_def ARENA_ALIGNMENT_def)

lemma arena_init_eq:
  "arena_init a w r c =
     (let pg = page w;
          rs = align_up r pg;
          cs = align_up c pg;
          total = rs + pg * 2;
          mem = reserve_ans w (calls w) total
      in if mem = 0 then (0, a, w\<lparr>calls := calls w @ [Reserve total]\<rparr>)
         else (1,
               \<lparr>base = mem + pg, cursor = mem + pg, commit = mem + pg, limit = mem + pg + rs,
                reserve_size = rs, commit_step = cs\<rparr>,
               w\<lparr>calls := calls w @ [Reserve total, Guard mem pg, Guard (mem + pg + rs) pg]\<rparr>))"
  by (simp add: arena_init_def os_page_size_def os_reserve_def os_guard_def
      ARENA_GUARD_PAGES_def Let_def)

lemma arena_init_fields:
  assumes "arena_init a0 w r c = (1, a, w1)"
  shows "cursor a = base a" and "commit a = base a" and "limit a = base a + reserve_size a"
    and "reserve_size a = align_up r (page w)" and "commit_step a = align_up c (page w)"
    and "base a = reserve_ans w (calls w) (align_up r (page w) + page w * 2) + page w"
    and "reserve_ans w (calls w) (align_up r (page w) + page w * 2) \<noteq> 0"
  using assms by (auto simp: arena_init_eq Let_def split: if_splits)

lemma arena_init_os:
  "arena_init a0 w r c = (x, a, w1) \<Longrightarrow> commit_ans w1 = commit_ans w \<and> page w1 = page w"
  by (auto simp: arena_init_eq Let_def split: if_splits)

lemma arena_alloc_out_of_space:
  "limit a < cursor a + align_up sz ARENA_ALIGNMENT \<Longrightarrow> arena_alloc a w sz = (None, a, w)"
  by (simp add: arena_alloc_def Let_def)

lemma arena_alloc_committed:
  "cursor a + align_up sz ARENA_ALIGNMENT \<le> limit a \<Longrightarrow>
   cursor a + align_up sz ARENA_ALIGNMENT \<le> commit a \<Longrightarrow>
   arena_alloc a w sz =
     (Some (cursor a), a\<lparr>cursor := cursor a + align_up sz ARENA_ALIGNMENT\<rparr>, w)"
  by (simp add: arena_alloc_def Let_def not_less [symmetric])

lemma arena_alloc_extend:
  "cursor a + align_up sz ARENA_ALIGNMENT \<le> limit a \<Longrightarrow>
   commit a < cursor a + align_up sz ARENA_ALIGNMENT \<Longrightarrow>
   arena_alloc a w sz =
     (let next = cursor a + align_up sz ARENA_ALIGNMENT;
          need = align_up (next - commit a) (commit_step a);
          w1 = w\<lparr>calls := calls w @ [Commit (commit a) need]\<rparr>
      in if commit_ans w (calls w) (commit a) need
         then (Some (cursor a), a\<lparr>commit := commit a + need, cursor := next\<rparr>, w1)
         else (None, a, w1))"
  by (simp add: arena_alloc_def Let_def os_commit_def not_less [symmetric])

lemma arena_alloc_None:
  "fst (arena_alloc a w sz) = None \<Longrightarrow> fst (snd (arena_alloc a w sz)) = a"
  by (simp add: arena_alloc_def Let_def os_commit_def split: if_splits)

lemma arena_alloc_Some:
  assumes "arena_alloc a w s = (Some p, a1, w1)"
  shows "p = cursor a" and "cursor a1 = cursor a + align_up s ARENA_ALIGNMENT"
    and "base a1 = base a" and "limit a1 = limit a" and "cursor a1 \<le> limit a"
  using assms
  by (auto simp: arena_alloc_def Let_def os_commit_def not_less split: if_splits)

subsection \<open>Alignment to a power of two\<close>

lemma pow2_lt_64: "k < 64 \<Longrightarrow> (2::nat) ^ k < 2 ^ 64"
  by (rule power_strict_increasing) simp_all

lemma unat_2p64: 
  assumes "k < 64" shows "unat (2 ^ k :: 64 word) = 2 ^ k"
proof (rule of_nat_inverse)
  show "word_of_nat (2 ^ k) = (2 ^ k :: 64 word)" by simp
  show "(2::nat) ^ k < 2 ^ LENGTH(64)" using pow2_lt_64 [OF assms] by simp
qed

lemma p2_neq0: "k < 64 \<Longrightarrow> (2 ^ k :: 64 word) \<noteq> 0"
  using unat_2p64 [of k] by (metis power_not_zero unsigned_0 zero_neq_numeral)

lemma unat_mask64: 
  assumes "k < 64" shows "unat (mask k :: 64 word) = 2 ^ k - 1"
proof -
  have "unat (2 ^ k - 1 :: 64 word) = unat (2 ^ k :: 64 word) - 1"
    using p2_neq0 [OF assms] by (rule unat_minus_one)
  then show ?thesis
    by (simp only: mask_eq_decr_exp unat_2p64 [OF assms])
qed

lemma unat_lt_2p64: "unat (x :: 64 word) < 2 ^ 64"
  using unsigned_less [of x, where 'a = nat] by simp

lemma and_not_mask_push_drop:
  "(y :: 'a::len word) AND NOT (mask k) = push_bit k (drop_bit k y)"
  by (rule bit_eqI) (auto simp: bit_simps)

lemma and_not_mask_minus: "(y :: 'a::len word) AND NOT (mask k) = y - take_bit k y"
proof -
  have "push_bit k (drop_bit k y) + take_bit k y = y"
    by (rule bits_ident)
  then have "push_bit k (drop_bit k y) = y - take_bit k y"
    by (simp add: algebra_simps)
  then show ?thesis
    by (simp add: and_not_mask_push_drop)
qed

lemma unat_take_bit_mod: "unat (take_bit k (y :: 'a::len word)) = unat y mod 2 ^ k"
  unfolding unsigned_take_bit_eq by (simp add: take_bit_eq_mod)

lemma unat_and_not_mask:
  "unat ((y :: 'a::len word) AND NOT (mask k)) = unat y - unat y mod 2 ^ k"
proof -
  have le: "take_bit k y \<le> y"
    unfolding word_le_nat_alt unat_take_bit_mod by simp
  have "unat (y - take_bit k y) = unat y - unat (take_bit k y)"
    using le by (rule unat_sub)
  then show ?thesis
    by (simp only: and_not_mask_minus unat_take_bit_mod)
qed

lemma align_up_pow2: "align_up x (2 ^ k) = (x + mask k) AND NOT (mask k)"
  by (simp add: align_up_def mask_eq_decr_exp)

lemma unat_align_up_pow2:
  assumes "k < 64" "unat x + 2 ^ k \<le> 2 ^ 64"
  shows "unat (align_up x (2 ^ k)) = (unat x + 2 ^ k - 1) div 2 ^ k * 2 ^ k"
proof -
  have m: "unat (mask k :: 64 word) = 2 ^ k - 1"
    using assms(1) by (rule unat_mask64)
  have pos: "(0::nat) < 2 ^ k" by simp
  have "unat x + unat (mask k :: 64 word) < 2 ^ LENGTH(64)"
    using assms(2) pos unfolding m by simp
  then have "unat (x + mask k) = unat x + unat (mask k :: 64 word)"
    by (rule unat_add_lem [THEN iffD1])
  then have s: "unat (x + mask k) = unat x + 2 ^ k - 1"
    using pos unfolding m by simp
  show ?thesis
    unfolding align_up_pow2 unat_and_not_mask s
    by (simp add: minus_mod_eq_div_mult)
qed

lemma round_up_ge: "0 < m \<Longrightarrow> n \<le> round_up n m"
proof -
  assume m: "0 < m"
  have "n + m - 1 = (n + m - 1) div m * m + (n + m - 1) mod m"
    by simp
  moreover have "(n + m - 1) mod m \<le> m - 1"
    using m mod_less_divisor [of m "n + m - 1"] by linarith
  ultimately have "n + m - 1 \<le> round_up n m + (m - 1)"
    unfolding round_up_def by linarith
  then show ?thesis using m by linarith
qed

lemma round_up_dvd: "m dvd round_up n m"
  by (simp add: round_up_def)

lemma round_up_le:
  assumes "0 < m" "m dvd L" "n \<le> L"
  shows "round_up n m \<le> L"
proof -
  from assms(2) obtain q where L: "L = m * q" ..
  have "(n + m - 1) div m \<le> (m * q + m - 1) div m"
    using assms(3) unfolding L by (intro div_le_mono) simp
  also have "(m * q + m - 1) div m = q"
  proof -
    have "m * q + m - 1 = (m - 1) + q * m"
      using assms(1) by (simp add: mult.commute)
    then have "(m * q + m - 1) div m = (m - 1) div m + q"
      using assms(1) by (simp only: div_mult_self1 [of m "m - 1" q, OF less_imp_neq [THEN not_sym]])
    then show ?thesis
      using assms(1) by simp
  qed
  finally show ?thesis
    unfolding round_up_def L by (simp add: mult.commute)
qed

lemma round_up_lt: "0 < m \<Longrightarrow> round_up n m < n + m"
proof -
  assume m: "0 < m"
  have "(n + m - 1) div m * m \<le> n + m - 1"
    by simp
  then show ?thesis
    unfolding round_up_def using m by linarith
qed

lemma round_up_id:
  assumes "0 < m" "m dvd n"
  shows "round_up n m = n"
proof (rule antisym)
  show "round_up n m \<le> n"
    using assms by (intro round_up_le) simp_all
  show "n \<le> round_up n m"
    using assms(1) by (rule round_up_ge)
qed

lemma unat_align_up_round:
  assumes "k < 64" "unat x + 2 ^ k \<le> 2 ^ 64"
  shows "unat (align_up x (2 ^ k)) = round_up (unat x) (2 ^ k)"
  using unat_align_up_pow2 [OF assms] by (simp add: round_up_def)

lemma align_up_dvd_id:
  assumes "j \<le> 16" and "2 ^ j dvd unat x" and "unat x \<le> 2 ^ 32"
  shows "align_up x (2 ^ j) = x"
proof -
  have j: "j < 64"
    using assms(1) by simp
  have "(2::nat) ^ j \<le> 2 ^ 16"
    using assms(1) by (intro power_increasing) simp_all
  then have "unat x + 2 ^ j \<le> 2 ^ 64"
    using assms(3) by simp
  with j have "unat (align_up x (2 ^ j)) = round_up (unat x) (2 ^ j)"
    by (rule unat_align_up_round)
  also have "\<dots> = unat x"
    using assms(2) by (intro round_up_id) simp_all
  finally show ?thesis
    by (rule word_unat_eq_iff [THEN iffD2])
qed

lemma align8_bounds:
  assumes "unat s + 7 < 2 ^ 64"
  shows "unat s \<le> unat (align_up s ARENA_ALIGNMENT)"
    and "unat (align_up s ARENA_ALIGNMENT) \<le> unat s + 7"
proof -
  have a: "align_up s ARENA_ALIGNMENT = align_up s (2 ^ 3)"
    by (simp add: ARENA_ALIGNMENT_def)
  have "unat s + 2 ^ 3 \<le> (2::nat) ^ 64"
    using assms by simp
  then have u: "unat (align_up s (2 ^ 3)) = round_up (unat s) (2 ^ 3)"
    by (intro unat_align_up_round) simp
  show "unat s \<le> unat (align_up s ARENA_ALIGNMENT)"
    unfolding a u by (rule round_up_ge) simp
  have "round_up (unat s) (2 ^ 3) < unat s + 2 ^ 3"
    by (rule round_up_lt) simp
  then show "unat (align_up s ARENA_ALIGNMENT) \<le> unat s + 7"
    unfolding a u by simp
qed

lemma align_up_wraps:
  assumes "SIZE_MAX - 7 < sz"
  shows "align_up sz ARENA_ALIGNMENT = 0"
proof -
  have "unat (SIZE_MAX - 7 :: 64 word) < unat sz"
    using assms by (simp add: word_less_nat_alt)
  then have lo: "18446744073709551608 < unat sz"
    by (simp add: SIZE_MAX_def)
  have hi: "unat sz < 18446744073709551616"
    using unsigned_less [of sz, where 'a = nat] by simp
  have "unat (sz + 7) = (unat sz + 7) mod 18446744073709551616"
    by (simp add: unat_word_ariths)
  also have "\<dots> = unat sz + 7 - 18446744073709551616"
    using lo hi by (simp add: mod_if)
  finally have u: "unat (sz + 7) < 8"
    using lo hi by simp
  have "unat ((sz + 7) AND NOT (mask 3)) = unat (sz + 7) - unat (sz + 7) mod 2 ^ 3"
    by (rule unat_and_not_mask)
  with u have "unat ((sz + 7) AND NOT (mask 3)) = 0"
    by simp
  then have "(sz + 7) AND NOT (mask 3) = 0"
    by (simp add: unat_eq_0)
  then show ?thesis
    by (simp add: align_up_def ARENA_ALIGNMENT_def mask_eq_decr_exp)
qed

lemma pow2_room:
  assumes "k < 64" "(2::nat) ^ k dvd L" "L < 2 ^ 64"
  shows "L + 2 ^ k \<le> 2 ^ 64"
proof -
  have "(2::nat) ^ k dvd 2 ^ 64"
    using assms(1) by (intro le_imp_power_dvd) simp
  then have "(2::nat) ^ k dvd 2 ^ 64 - L"
    using assms(2) by (rule dvd_diff_nat)
  moreover have "0 < (2::nat) ^ 64 - L"
    using assms(3) by simp
  ultimately have "(2::nat) ^ k \<le> 2 ^ 64 - L"
    by (rule dvd_imp_le)
  then show ?thesis
    using assms(3) by linarith
qed

lemma extend_bounds:
  fixes cm lm nx :: addr
  assumes k: "k < 64" and lt: "cm < nx" and le: "nx \<le> lm"
    and dv: "2 ^ k dvd (unat lm - unat cm)"
  shows "unat (align_up (nx - cm) (2 ^ k)) = round_up (unat nx - unat cm) (2 ^ k)"
    and "unat (cm + align_up (nx - cm) (2 ^ k)) = unat cm + round_up (unat nx - unat cm) (2 ^ k)"
    and "nx \<le> cm + align_up (nx - cm) (2 ^ k)"
    and "cm + align_up (nx - cm) (2 ^ k) \<le> lm"
proof -
  let ?m = "(2::nat) ^ k"
  let ?need = "align_up (nx - cm) (2 ^ k)"
  let ?r = "round_up (unat nx - unat cm) ?m"
  have n_lt: "unat cm < unat nx" and n_le: "unat nx \<le> unat lm"
    using lt le by (simp_all add: word_less_nat_alt word_le_nat_alt)
  have d: "unat (nx - cm) = unat nx - unat cm"
    using lt by (intro unat_sub) simp
  have L: "unat lm - unat cm < 2 ^ 64"
    using unat_lt_2p64 [of lm] by linarith
  have "unat lm - unat cm + ?m \<le> 2 ^ 64"
    using k dv L by (rule pow2_room)
  then have "unat (nx - cm) + ?m \<le> 2 ^ 64"
    unfolding d using n_le by linarith
  with k have need: "unat ?need = round_up (unat (nx - cm)) ?m"
    by (rule unat_align_up_round)
  then show r: "unat ?need = ?r"
    by (simp only: d)
  have r_le: "?r \<le> unat lm - unat cm"
    using dv n_le by (intro round_up_le) simp_all
  have r_ge: "unat nx - unat cm \<le> ?r"
    by (rule round_up_ge) simp
  have "unat cm + unat ?need < 2 ^ LENGTH(64)"
    unfolding r using r_le n_lt n_le unat_lt_2p64 [of lm] by simp
  then have "unat (cm + ?need) = unat cm + unat ?need"
    by (rule unat_add_lem [THEN iffD1])
  then show s: "unat (cm + ?need) = unat cm + ?r"
    by (simp only: r)
  show "nx \<le> cm + ?need"
    unfolding word_le_nat_alt s using r_ge n_lt by linarith
  show "cm + ?need \<le> lm"
    unfolding word_le_nat_alt s using r_le n_lt n_le by linarith
qed

lemma dvd_unat_align_up_pow2: "2 ^ k dvd unat (align_up x (2 ^ k))"
  unfolding align_up_pow2 unat_and_not_mask
  by (simp add: minus_mod_eq_div_mult)

lemma dvd_pow2_add:
  assumes "k < 64" and "2 ^ k dvd unat (x :: 64 word)" and "2 ^ k dvd unat (y :: 64 word)"
  shows "2 ^ k dvd unat (x + y)"
proof -
  have "(2::nat) ^ k dvd 2 ^ 64"
    using assms(1) by (intro le_imp_power_dvd) simp
  then have "2 ^ k dvd (unat x + unat y) mod 2 ^ 64 \<longleftrightarrow> 2 ^ k dvd unat x + unat y"
    by (rule dvd_mod_iff)
  moreover have "unat (x + y) = (unat x + unat y) mod 2 ^ 64"
    by (simp add: unat_word_ariths)
  ultimately show ?thesis
    using assms(2,3) by simp
qed

lemma dvd8_add:
  assumes "8 dvd unat (x :: 64 word)" and "8 dvd unat (y :: 64 word)"
  shows "8 dvd unat (x + y)"
proof -
  have "(8::nat) dvd 2 ^ 64"
    by simp
  then have "8 dvd (unat x + unat y) mod 2 ^ 64 \<longleftrightarrow> 8 dvd unat x + unat y"
    by (rule dvd_mod_iff)
  then show ?thesis
    using assms by (simp add: unat_word_ariths)
qed

lemma dvd8_align_up: "8 dvd unat (align_up s ARENA_ALIGNMENT)"
  using dvd_unat_align_up_pow2 [of 3 s] by (simp add: ARENA_ALIGNMENT_def)

subsection \<open>Single calls and runs\<close>

lemma ordered_cursor_le:
  "ordered a \<Longrightarrow> cursor a \<le> commit a \<and> cursor a \<le> limit a"
  unfolding ordered_def by (meson order_trans)

lemma arena_alloc_stay:
  assumes "ordered a" and "align_up sz ARENA_ALIGNMENT = 0"
  shows "arena_alloc a w sz = (Some (cursor a), a, w)"
proof -
  have "cursor a + align_up sz ARENA_ALIGNMENT \<le> limit a"
    and "cursor a + align_up sz ARENA_ALIGNMENT \<le> commit a"
    using ordered_cursor_le [OF assms(1)] assms(2) by simp_all
  then have "arena_alloc a w sz =
      (Some (cursor a), a\<lparr>cursor := cursor a + align_up sz ARENA_ALIGNMENT\<rparr>, w)"
    by (rule arena_alloc_committed)
  then show ?thesis
    by (simp add: assms(2))
qed

lemma arena_alloc_zero:
  "ordered a \<Longrightarrow> arena_alloc a w 0 = (Some (cursor a), a, w)"
  by (rule arena_alloc_stay) simp_all

lemma alloc_seq_zeros:
  "ordered a \<Longrightarrow> alloc_seq a w (replicate n 0) = (replicate n (Some (cursor a)), a, w)"
  by (induction n) (simp_all add: arena_alloc_zero)

lemma arena_alloc_no_room:
  assumes "limit a = cursor a" and "0 < align_up s ARENA_ALIGNMENT"
    and "unat (cursor a) + unat (align_up s ARENA_ALIGNMENT) < 2 ^ 64"
  shows "arena_alloc a w s = (None, a, w)"
proof -
  let ?n = "align_up s ARENA_ALIGNMENT"
  have "unat (cursor a) + unat ?n < 2 ^ LENGTH(64)"
    using assms(3) by simp
  then have "unat (cursor a + ?n) = unat (cursor a) + unat ?n"
    by (rule unat_add_lem [THEN iffD1])
  moreover have "0 < unat ?n"
    using assms(2) by (simp add: word_less_nat_alt)
  ultimately have "limit a < cursor a + ?n"
    by (simp add: word_less_nat_alt assms(1))
  then show ?thesis
    by (rule arena_alloc_out_of_space)
qed

lemma within_commit_run:
  "within_commit a w ss \<Longrightarrow>
   snd (snd (alloc_seq a w ss)) = w \<and> commit (fst (snd (alloc_seq a w ss))) = commit a"
proof (induction ss arbitrary: a)
  case Nil
  then show ?case by simp
next
  case (Cons s ss)
  let ?next = "cursor a + align_up s ARENA_ALIGNMENT"
  from Cons.prems have le: "?next \<le> commit a" by simp
  show ?case
  proof (cases "limit a < ?next")
    case True
    then have step: "arena_alloc a w s = (None, a, w)"
      by (rule arena_alloc_out_of_space)
    with Cons.prems have "within_commit a w ss" by simp
    from Cons.IH [OF this] step show ?thesis by (simp add: case_prod_beta)
  next
    case False
    then have step: "arena_alloc a w s = (Some (cursor a), a\<lparr>cursor := ?next\<rparr>, w)"
      using le by (simp add: arena_alloc_committed)
    with Cons.prems have "within_commit (a\<lparr>cursor := ?next\<rparr>) w ss" by simp
    from Cons.IH [OF this] step show ?thesis by (simp add: case_prod_beta)
  qed
qed

lemma alloc_seq_layout:
  "fst (alloc_seq a w ss) = map Some ps \<Longrightarrow>
   cursor (fst (snd (alloc_seq a w ss))) =
     cursor a + sum_list (map (\<lambda>s. align_up s ARENA_ALIGNMENT) ss)
   \<and> base (fst (snd (alloc_seq a w ss))) = base a
   \<and> (\<forall>i<length ss.
        ps ! i = cursor a + sum_list (map (\<lambda>s. align_up s ARENA_ALIGNMENT) (take i ss)))"
proof (induction ss arbitrary: a w ps)
  case Nil
  then show ?case by simp
next
  case (Cons s ss)
  obtain p a1 w1 where step: "arena_alloc a w s = (p, a1, w1)"
    by (cases "arena_alloc a w s")
  with Cons.prems have "p # fst (alloc_seq a1 w1 ss) = map Some ps"
    by (simp add: case_prod_beta)
  then obtain x ps' where x: "ps = x # ps'" "p = Some x"
    and rest: "fst (alloc_seq a1 w1 ss) = map Some ps'"
    by (cases ps) auto
  have "x = cursor a"
    using step x(2) by (simp add: arena_alloc_Some(1))
  with x have ps: "ps = cursor a # ps'" "p = Some (cursor a)"
    by simp_all
  note h = arena_alloc_Some [OF step [unfolded ps(2)]]
  note ih = Cons.IH [OF rest]
  have e: "fst (snd (alloc_seq a w (s # ss))) = fst (snd (alloc_seq a1 w1 ss))"
    by (simp add: step case_prod_beta)
  have "ps ! i = cursor a + sum_list (map (\<lambda>s. align_up s ARENA_ALIGNMENT) (take i (s # ss)))"
    if "i < length (s # ss)" for i
  proof (cases i)
    case 0
    then show ?thesis by (simp add: ps)
  next
    case (Suc j)
    with that have "j < length ss"
      by simp
    with ih have "ps' ! j =
        cursor a1 + sum_list (map (\<lambda>s. align_up s ARENA_ALIGNMENT) (take j ss))"
      by simp
    then show ?thesis
      by (simp add: Suc ps(1) h(2) add.assoc)
  qed
  moreover have "cursor (fst (snd (alloc_seq a w (s # ss)))) =
      cursor a + sum_list (map (\<lambda>s. align_up s ARENA_ALIGNMENT) (s # ss))"
    using ih by (simp only: e) (simp add: h(2) add.assoc)
  moreover have "base (fst (snd (alloc_seq a w (s # ss)))) = base a"
    using ih by (simp only: e) (simp add: h(3))
  ultimately show ?case
    by blast
qed

lemma alloc_seq_disjoint:
  assumes "cursor a \<le> limit a"
    and "\<forall>s\<in>set ss. unat (limit a) + unat s + 7 < 2 ^ 64"
    and "fst (alloc_seq a w ss) = map Some ps"
  shows "list_all (\<lambda>p. unat (cursor a) \<le> unat p) ps \<and> disjoint_allocs (zip ps ss)"
  using assms
proof (induction ss arbitrary: a w ps)
  case Nil
  then show ?case by simp
next
  case (Cons s ss)
  let ?n = "align_up s ARENA_ALIGNMENT"
  obtain p a1 w1 where step: "arena_alloc a w s = (p, a1, w1)"
    by (cases "arena_alloc a w s")
  with Cons.prems(3) have "p # fst (alloc_seq a1 w1 ss) = map Some ps"
    by (simp add: case_prod_beta)
  then obtain x ps' where x: "ps = x # ps'" "p = Some x"
    and rest: "fst (alloc_seq a1 w1 ss) = map Some ps'"
    by (cases ps) auto
  note h = arena_alloc_Some [OF step [unfolded x(2)]]
  have c: "unat (cursor a) \<le> unat (limit a)"
    using Cons.prems(1) by (simp add: word_le_nat_alt)
  have s: "unat (limit a) + unat s + 7 < 2 ^ 64"
    using Cons.prems(2) by simp
  then have "unat s + 7 < 2 ^ 64"
    by linarith
  note b = align8_bounds [OF this]
  have "unat (cursor a) + unat ?n < 2 ^ LENGTH(64)"
    using b(2) c s by simp
  then have "unat (cursor a + ?n) = unat (cursor a) + unat ?n"
    by (rule unat_add_lem [THEN iffD1])
  then have adv: "unat (cursor a) + unat s \<le> unat (cursor a1)"
    using b(1) by (simp add: h(2))
  have "cursor a1 \<le> limit a1"
    using h(4,5) by simp
  moreover have "\<forall>s\<in>set ss. unat (limit a1) + unat s + 7 < 2 ^ 64"
    using Cons.prems(2) by (simp add: h(4))
  ultimately have ih: "list_all (\<lambda>p. unat (cursor a1) \<le> unat p) ps'"
    "disjoint_allocs (zip ps' ss)"
    using Cons.IH [OF _ _ rest] by simp_all
  have far: "\<forall>q\<in>set ps'. unat (cursor a) + unat s \<le> unat q"
    using ih(1) adv by (auto simp: list_all_iff)
  have "list_all (\<lambda>(q, t). \<not> ranges_overlap x s q t) (zip ps' ss)"
    unfolding list_all_iff
  proof (clarify)
    fix q t
    assume m: "(q, t) \<in> set (zip ps' ss)" and o: "ranges_overlap x s q t"
    from m have "q \<in> set ps'"
      by (rule set_zip_leftD)
    with far have "unat (cursor a) + unat s \<le> unat q"
      by simp
    with o show False
      by (simp add: ranges_overlap_def h(1))
  qed
  moreover have "list_all (\<lambda>p. unat (cursor a) \<le> unat p) ps"
    using far by (auto simp: x(1) h(1) list_all_iff)
  ultimately show ?case
    using ih(2) by (simp add: x(1))
qed

lemma ranges_overlap_iff:
  "ranges_overlap p s q t \<longleftrightarrow>
     {unat p ..< unat p + unat s} \<inter> {unat q ..< unat q + unat t} \<noteq> {}"
  by (auto simp: ranges_overlap_def)

subsection \<open>Preservation of the invariant\<close>

lemma steady_nat:
  assumes "steady k a"
  shows "unat (base a) \<le> unat (cursor a)" and "unat (cursor a) \<le> unat (commit a)"
    and "unat (commit a) \<le> unat (limit a)"
    and "2 ^ k dvd (unat (commit a) - unat (base a))"
    and "2 ^ k dvd (unat (limit a) - unat (base a))"
    and "2 ^ k dvd (unat (limit a) - unat (commit a))"
proof -
  from assms have o: "base a \<le> cursor a" "cursor a \<le> commit a" "commit a \<le> limit a"
    and dc: "2 ^ k dvd unat (commit a - base a)" and dl: "2 ^ k dvd unat (limit a - base a)"
    by (simp_all add: steady_def ordered_def)
  show b: "unat (base a) \<le> unat (cursor a)" and c: "unat (cursor a) \<le> unat (commit a)"
    and l: "unat (commit a) \<le> unat (limit a)"
    using o by (simp_all add: word_le_nat_alt)
  have "base a \<le> commit a" "base a \<le> limit a"
    using o by (meson order_trans)+
  then have "unat (commit a - base a) = unat (commit a) - unat (base a)"
    and "unat (limit a - base a) = unat (limit a) - unat (base a)"
    by (simp_all add: unat_sub)
  with dc dl show x: "2 ^ k dvd (unat (commit a) - unat (base a))"
    and y: "2 ^ k dvd (unat (limit a) - unat (base a))"
    by simp_all
  have "unat (limit a) - unat (commit a) =
      (unat (limit a) - unat (base a)) - (unat (commit a) - unat (base a))"
    using b c l by linarith
  then show "2 ^ k dvd (unat (limit a) - unat (commit a))"
    using x y by (simp only: dvd_diff_nat)
qed

lemma steadyI:
  assumes "k < 64" "commit_step a = 2 ^ k"
    and "unat (base a) \<le> unat (cursor a)" "unat (cursor a) \<le> unat (commit a)"
    and "unat (commit a) \<le> unat (limit a)"
    and "2 ^ k dvd (unat (commit a) - unat (base a))"
    and "2 ^ k dvd (unat (limit a) - unat (base a))"
  shows "steady k a"
proof -
  have o: "base a \<le> cursor a" "cursor a \<le> commit a" "commit a \<le> limit a"
    using assms(3-5) by (simp_all add: word_le_nat_alt)
  have "base a \<le> commit a" "base a \<le> limit a"
    using o by (meson order_trans)+
  then have "unat (commit a - base a) = unat (commit a) - unat (base a)"
    and "unat (limit a - base a) = unat (limit a) - unat (base a)"
    by (simp_all add: unat_sub)
  with assms o show ?thesis
    by (simp add: steady_def ordered_def)
qed

lemma steady_ordered: "steady k a \<Longrightarrow> ordered a"
  by (simp add: steady_def)

lemma steady_reset: "steady k a \<Longrightarrow> steady k (arena_reset a)"
proof -
  assume s: "steady k a"
  have "base a \<le> commit a"
    using s by (auto simp: steady_def ordered_def)
  with s show ?thesis
    by (simp add: steady_def ordered_def arena_reset_def)
qed

lemma steady_init:
  assumes i: "arena_init a0 w r c = (1, a, w1)"
    and k: "k < 64" "commit_step a = 2 ^ k" and d: "2 ^ k dvd unat (reserve_size a)"
    and nw: "unat (base a) + unat (reserve_size a) < 2 ^ 64"
  shows "steady k a"
proof (rule steadyI)
  note f = arena_init_fields [OF i]
  have "unat (base a) + unat (reserve_size a) < 2 ^ LENGTH(64)"
    using nw by simp
  then have l: "unat (limit a) = unat (base a) + unat (reserve_size a)"
    unfolding f(3) by (rule unat_add_lem [THEN iffD1])
  show "unat (base a) \<le> unat (cursor a)" "unat (cursor a) \<le> unat (commit a)"
    by (simp_all add: f(1,2))
  show "unat (commit a) \<le> unat (limit a)"
    by (simp add: f(2) l)
  show "2 ^ k dvd unat (commit a) - unat (base a)"
    by (simp add: f(2))
  show "2 ^ k dvd unat (limit a) - unat (base a)"
    using d by (simp add: l)
qed (use k in simp_all)

lemma steady_alloc:
  assumes s: "steady k a"
    and nw: "unat (cursor a) + unat (align_up sz ARENA_ALIGNMENT) < 2 ^ 64"
  shows "steady k (fst (snd (arena_alloc a w sz)))"
proof -
  let ?n = "align_up sz ARENA_ALIGNMENT"
  let ?next = "cursor a + ?n"
  note f = steady_nat [OF s]
  from s have k: "k < 64" and st: "commit_step a = 2 ^ k"
    by (simp_all add: steady_def)
  have "unat (cursor a) + unat ?n < 2 ^ LENGTH(64)"
    using nw by simp
  then have nx: "unat ?next = unat (cursor a) + unat ?n"
    by (rule unat_add_lem [THEN iffD1])
  consider (space) "limit a < ?next"
    | (extend) "?next \<le> limit a" "commit a < ?next"
    | (plain) "?next \<le> limit a" "?next \<le> commit a"
    by fastforce
  then show ?thesis
  proof cases
    case space
    then show ?thesis
      using s by (simp add: arena_alloc_out_of_space)
  next
    case plain
    have "steady k (a\<lparr>cursor := ?next\<rparr>)"
    proof (rule steadyI)
      show "unat (base (a\<lparr>cursor := ?next\<rparr>)) \<le> unat (cursor (a\<lparr>cursor := ?next\<rparr>))"
        using f(1) nx by simp
      show "unat (cursor (a\<lparr>cursor := ?next\<rparr>)) \<le> unat (commit (a\<lparr>cursor := ?next\<rparr>))"
        using plain(2) by (simp add: word_le_nat_alt)
    qed (use k st f in simp_all)
    with plain show ?thesis
      by (simp add: arena_alloc_committed)
  next
    case extend
    let ?need = "align_up (?next - commit a) (2 ^ k)"
    let ?a' = "a\<lparr>commit := commit a + ?need, cursor := ?next\<rparr>"
    note e = extend_bounds [OF k extend(2) extend(1) f(6)]
    have "steady k ?a'"
    proof (rule steadyI)
      show "unat (base ?a') \<le> unat (cursor ?a')"
        using f(1) nx by simp
      show "unat (cursor ?a') \<le> unat (commit ?a')"
        using e(3) by (simp add: word_le_nat_alt)
      show "unat (commit ?a') \<le> unat (limit ?a')"
        using e(4) by (simp add: word_le_nat_alt)
      have "unat (commit a) + round_up (unat ?next - unat (commit a)) (2 ^ k) - unat (base a)
          = (unat (commit a) - unat (base a)) + round_up (unat ?next - unat (commit a)) (2 ^ k)"
        using f(1,2) by linarith
      then show "2 ^ k dvd (unat (commit ?a') - unat (base ?a'))"
        using f(4) by (simp add: e(2) round_up_dvd)
    qed (use k st f in simp_all)
    with extend s show ?thesis
      by (simp add: arena_alloc_extend Let_def st)
  qed
qed

lemma alloc_fits:
  assumes s: "steady k a"
    and fit: "unat (cursor a) + unat (align_up sz ARENA_ALIGNMENT) \<le> unat (limit a)"
    and ok: "\<forall>l p n. commit_ans w l p n"
  shows "fst (arena_alloc a w sz) = Some (cursor a)"
    and "cursor (fst (snd (arena_alloc a w sz))) = cursor a + align_up sz ARENA_ALIGNMENT"
    and "base (fst (snd (arena_alloc a w sz))) = base a"
    and "limit (fst (snd (arena_alloc a w sz))) = limit a"
    and "steady k (fst (snd (arena_alloc a w sz)))"
    and "commit_ans (snd (snd (arena_alloc a w sz))) = commit_ans w"
proof -
  let ?n = "align_up sz ARENA_ALIGNMENT"
  have nw: "unat (cursor a) + unat ?n < 2 ^ 64"
    using fit unat_lt_2p64 [of "limit a"] by linarith
  then have "unat (cursor a) + unat ?n < 2 ^ LENGTH(64)"
    by simp
  then have "unat (cursor a + ?n) = unat (cursor a) + unat ?n"
    by (rule unat_add_lem [THEN iffD1])
  with fit have le: "cursor a + ?n \<le> limit a"
    by (simp add: word_le_nat_alt)
  show "steady k (fst (snd (arena_alloc a w sz)))"
    using s nw by (rule steady_alloc)
  show "fst (arena_alloc a w sz) = Some (cursor a)"
    and "cursor (fst (snd (arena_alloc a w sz))) = cursor a + ?n"
    and "base (fst (snd (arena_alloc a w sz))) = base a"
    and "limit (fst (snd (arena_alloc a w sz))) = limit a"
    and "commit_ans (snd (snd (arena_alloc a w sz))) = commit_ans w"
    using le ok
    by (cases "commit a < cursor a + ?n";
        simp add: arena_alloc_extend arena_alloc_committed Let_def not_less)+
qed

lemma alloc_seq_64:
  assumes "steady k a" and "unat (cursor a) + 64 * n \<le> unat (limit a)"
    and "\<forall>l p m. commit_ans w l p m"
  shows "fst (alloc_seq a w (replicate n 64)) = map (\<lambda>i. Some (cursor a + 64 * of_nat i)) [0..<n]
    \<and> steady k (fst (snd (alloc_seq a w (replicate n 64))))
    \<and> cursor (fst (snd (alloc_seq a w (replicate n 64)))) = cursor a + 64 * of_nat n
    \<and> base (fst (snd (alloc_seq a w (replicate n 64)))) = base a
    \<and> limit (fst (snd (alloc_seq a w (replicate n 64)))) = limit a"
  using assms
proof (induction n arbitrary: a w)
  case 0
  then show ?case by simp
next
  case (Suc n)
  let ?a1 = "fst (snd (arena_alloc a w 64))"
  let ?w1 = "snd (snd (arena_alloc a w 64))"
  have fit: "unat (cursor a) + unat (align_up 64 ARENA_ALIGNMENT) \<le> unat (limit a)"
    using Suc.prems(2) by (simp add: align_up_64)
  note f = alloc_fits [OF Suc.prems(1) fit Suc.prems(3), unfolded align_up_64]
  have "unat (cursor a) + unat (64 :: 64 word) < 2 ^ LENGTH(64)"
    using Suc.prems(2) unat_lt_2p64 [of "limit a"] by simp
  then have "unat (cursor a + 64) = unat (cursor a) + unat (64 :: 64 word)"
    by (rule unat_add_lem [THEN iffD1])
  then have "unat (cursor ?a1) + 64 * n \<le> unat (limit ?a1)"
    using Suc.prems(2) by (simp add: f(2,4))
  moreover have "\<forall>l p m. commit_ans ?w1 l p m"
    using Suc.prems(3) by (simp add: f(6))
  ultimately have ih:
    "fst (alloc_seq ?a1 ?w1 (replicate n 64)) = map (\<lambda>i. Some (cursor ?a1 + 64 * of_nat i)) [0..<n]"
    "steady k (fst (snd (alloc_seq ?a1 ?w1 (replicate n 64))))"
    "cursor (fst (snd (alloc_seq ?a1 ?w1 (replicate n 64)))) = cursor ?a1 + 64 * of_nat n"
    "base (fst (snd (alloc_seq ?a1 ?w1 (replicate n 64)))) = base ?a1"
    "limit (fst (snd (alloc_seq ?a1 ?w1 (replicate n 64)))) = limit ?a1"
    using Suc.IH [OF f(5)] by simp_all
  have e: "alloc_seq a w (replicate (Suc n) 64) =
      (fst (arena_alloc a w 64) # fst (alloc_seq ?a1 ?w1 (replicate n 64)),
       snd (alloc_seq ?a1 ?w1 (replicate n 64)))"
    by (simp add: case_prod_beta)
  have m: "map (\<lambda>i. Some (cursor a + 64 * of_nat i)) [0..<Suc n] =
      Some (cursor a) # map (\<lambda>i. Some (cursor a + 64 + 64 * of_nat i)) [0..<n]"
    by (simp only: map_upt_Suc) (simp add: algebra_simps)
  show ?case
    unfolding e m using ih by (simp add: f algebra_simps)
qed

lemma aligned8_alloc:
  assumes "aligned8 a"
  shows "aligned8 (fst (snd (arena_alloc a w sz)))"
proof -
  have t: "8 dvd unat (cursor a - base a)"
    using assms by (simp add: aligned8_def ARENA_ALIGNMENT_def)
  have e: "cursor a + align_up sz ARENA_ALIGNMENT - base a =
      (cursor a - base a) + align_up sz ARENA_ALIGNMENT"
    by simp
  have "8 dvd unat (cursor a + align_up sz ARENA_ALIGNMENT - base a)"
    unfolding e using t dvd8_align_up by (rule dvd8_add)
  with assms show ?thesis
    by (simp add: arena_alloc_def Let_def os_commit_def aligned8_def ARENA_ALIGNMENT_def)
qed

lemma whole_steps_alloc:
  assumes k: "k < 64" "commit_step a = 2 ^ k" and w: "whole_steps a"
  shows "whole_steps (fst (snd (arena_alloc a w0 sz)))"
proof -
  let ?next = "cursor a + align_up sz ARENA_ALIGNMENT"
  let ?need = "align_up (?next - commit a) (2 ^ k)"
  have u: "unat (2 ^ k :: 64 word) = 2 ^ k"
    using k(1) by (rule unat_2p64)
  have t: "2 ^ k dvd unat (commit a - base a)"
    using w by (simp add: whole_steps_def k(2) u)
  have e: "commit a + ?need - base a = (commit a - base a) + ?need"
    by simp
  have "2 ^ k dvd unat (commit a + ?need - base a)"
    unfolding e using k(1) t dvd_unat_align_up_pow2 by (rule dvd_pow2_add)
  with w show ?thesis
    by (simp add: arena_alloc_def Let_def os_commit_def whole_steps_def k(2) u)
qed

section \<open>Layout of a run of allocations\<close>

text \<open>
  Claim C1, as the code has it. Take a run of \<^verbatim>\<open>arena_alloc\<close> calls with sizes \<open>ss\<close> that
  all succeed, started with \<open>cursor = base\<close> (the state \<^verbatim>\<open>arena_init\<close> and
  \<^verbatim>\<open>arena_reset\<close> leave). In \<^verbatim>\<open>size_t\<close> arithmetic, that is modulo \<open>2 ^ 64\<close>, the
  displacement of the cursor from \<open>base\<close> is the sum of \<open>align_up(s, 8)\<close> over the run, and
  the \<open>i\<close>-th pointer returned is \<open>base\<close> plus the sum over the calls before it. When
  moreover \<open>base \<le> limit\<close> and no request is so large that \<open>limit + s + 7\<close> passes
  \<open>2 ^ 64\<close>, no two of the returned ranges \<open>[p, p + s)\<close> overlap.
\<close>

theorem alloc_seq_bump:
  assumes "cursor a = base a" and "fst (alloc_seq a w ss) = map Some ps"
  shows "cursor (fst (snd (alloc_seq a w ss))) - base (fst (snd (alloc_seq a w ss))) =
           sum_list (map (\<lambda>s. align_up s ARENA_ALIGNMENT) ss)
     \<and> (\<forall>i<length ss.
          ps ! i = base a + sum_list (map (\<lambda>s. align_up s ARENA_ALIGNMENT) (take i ss)))
     \<and> (base a \<le> limit a \<and> (\<forall>s\<in>set ss. unat (limit a) + unat s + 7 < 2 ^ 64)
          \<longrightarrow> disjoint_allocs (zip ps ss))"
proof -
  note l = alloc_seq_layout [OF assms(2)]
  have "disjoint_allocs (zip ps ss)"
    if "base a \<le> limit a" and "\<forall>s\<in>set ss. unat (limit a) + unat s + 7 < 2 ^ 64"
    using alloc_seq_disjoint [of a ss w ps] that assms by simp
  with l show ?thesis
    by (simp add: assms(1))
qed

theorem alloc_seq_bump_witness:
  "fst (alloc_seq ex_arena ex_os1 [64, 100, 0]) = map Some [0x10000, 0x10040, 0x100A8]
   \<and> cursor (fst (snd (alloc_seq ex_arena ex_os1 [64, 100, 0])))
       - base (fst (snd (alloc_seq ex_arena ex_os1 [64, 100, 0]))) = 168
   \<and> disjoint_allocs (zip [0x10000, 0x10040, 0x100A8] [64, 100, 0])"
proof -
  have c: "cursor ex_arena = base ex_arena"
    by (simp add: ex_arena_def)
  have r: "fst (alloc_seq ex_arena ex_os1 [64, 100, 0]) = map Some [0x10000, 0x10040, 0x100A8]"
    by (simp add: arena_alloc_def Let_def ex_arena_def ex_os1_simps os_commit_def align_up_def
        ARENA_ALIGNMENT_def)
  have l: "base ex_arena \<le> limit ex_arena"
    "\<forall>s\<in>set [64, 100, 0]. unat (limit ex_arena) + unat (s :: size_t) + 7 < 2 ^ 64"
    by (simp_all add: ex_arena_def)
  have s: "sum_list (map (\<lambda>s. align_up s ARENA_ALIGNMENT) [64, 100, 0]) = 168"
    by (simp add: align_up_def ARENA_ALIGNMENT_def)
  from alloc_seq_bump [OF c r] l r s show ?thesis
    by simp
qed

text \<open>
  Without the bound on the sizes the ranges can overlap. A request of \<open>2 ^ 64 - 16\<close>
  bytes wraps the candidate: it succeeds and moves the cursor back by \<open>16\<close> bytes, so the
  third call returns the address the first one returned.
\<close>

theorem alloc_seq_overlap_counterexample:
  "cursor ex_arena = base ex_arena
   \<and> fst (alloc_seq ex_arena ex_os1 [16, 0xFFFFFFFFFFFFFFF0, 16]) =
       map Some [0x10000, 0x10010, 0x10000]
   \<and> \<not> disjoint_allocs (zip [0x10000, 0x10010, 0x10000] [16, 0xFFFFFFFFFFFFFFF0, 16])"
  by (simp add: arena_alloc_def Let_def ex_arena_def ex_os1_simps os_commit_def align_up_def
      ARENA_ALIGNMENT_def ranges_overlap_def)

text \<open>
  A request of \<open>SIZE_MAX\<close> bytes succeeds without moving the cursor, and the next
  request is given the same address.
\<close>

lemma size_max_alias:
  "fst (alloc_seq ex_arena ex_os1 [SIZE_MAX, 8]) = map Some [0x10000, 0x10000]
   \<and> ranges_overlap 0x10000 SIZE_MAX 0x10000 8"
  by (simp add: arena_alloc_def Let_def ex_arena_def ex_os1_simps os_commit_def align_up_def
      ARENA_ALIGNMENT_def SIZE_MAX_def ranges_overlap_def)

section \<open>The ordering invariant\<close>

text \<open>
  Claim C2 says that \<open>base \<le> cursor \<le> commit \<le> limit\<close> holds after a successful
  \<^verbatim>\<open>arena_init\<close> and is preserved by every \<^verbatim>\<open>arena_alloc\<close> and
  \<^verbatim>\<open>arena_reset\<close>. The code breaks it on an ordinary input, with no wrap-around. On a
  system with 4 KiB pages, \<^verbatim>\<open>arena_init(&a, 12288, 8192)\<close> succeeds with an ordered
  arena of three pages, a commit step of two pages and the trailing guard page at
  \<open>0x13000\<close>. Then \<^verbatim>\<open>arena_alloc(&a, 8200)\<close> has its candidate within \<open>limit\<close>,
  computes \<open>need = align_up(8200, 8192) = 16384\<close>, commits four pages at \<open>base\<close>,
  which covers the trailing guard page, and succeeds with \<open>commit = 0x14000\<close> above
  \<open>limit = 0x13000\<close>.
\<close>

theorem commit_passes_limit:
  "arena_init ex_arena0 ex_os 12288 8192 = (1, ex_small, ex_os3)
   \<and> ordered ex_small
   \<and> arena_alloc ex_small ex_os3 8200 =
       (Some 0x10000, ex_small\<lparr>commit := 0x14000, cursor := 0x12008\<rparr>,
        ex_os3\<lparr>calls := [Reserve 20480, Guard 0xF000 4096, Guard 0x13000 4096,
                          Commit 0x10000 16384]\<rparr>)
   \<and> limit (ex_small\<lparr>commit := 0x14000, cursor := 0x12008\<rparr>)
       < commit (ex_small\<lparr>commit := 0x14000, cursor := 0x12008\<rparr>)
   \<and> \<not> ordered (ex_small\<lparr>commit := 0x14000, cursor := 0x12008\<rparr>)"
  by (simp add: arena_init_eq Let_def ex_os_simps ex_small_def ex_os3_def align_up_def
      ARENA_ALIGNMENT_def arena_alloc_def os_commit_def ordered_def)

text \<open>
  The ordering breaks in other ways as well: a commit step of \<open>0\<close> leaves \<open>commit\<close>
  behind the cursor; a reserve size near \<open>2 ^ 64\<close> wraps the total and puts \<open>limit\<close>
  below \<open>base\<close>; a request near \<open>2 ^ 64\<close> wraps the candidate and moves the cursor
  below \<open>base\<close>.
\<close>

lemma zero_step_breaks_order:
  "arena_init ex_arena0 ex_os 65536 0 = (1, ex_arena\<lparr>commit_step := 0\<rparr>, ex_os1)
   \<and> arena_alloc (ex_arena\<lparr>commit_step := 0\<rparr>) ex_os1 8 =
       (Some 0x10000, ex_arena\<lparr>commit_step := 0, cursor := 0x10008\<rparr>,
        ex_os1\<lparr>calls := calls ex_os1 @ [Commit 0x10000 0]\<rparr>)
   \<and> \<not> ordered (ex_arena\<lparr>commit_step := 0, cursor := 0x10008\<rparr>)"
  by (simp add: arena_init_eq Let_def ex_os_simps ex_os1_simps ex_arena_def ex_os1_def
      align_up_def ARENA_ALIGNMENT_def arena_alloc_def os_commit_def ordered_def)

lemma init_wrap_breaks_order:
  "fst (arena_init ex_arena0 ex_os 0xFFFFFFFFFFFFF000 65536) = 1
   \<and> fst (snd (arena_init ex_arena0 ex_os 0xFFFFFFFFFFFFF000 65536)) =
       \<lparr>base = 0x10000, cursor = 0x10000, commit = 0x10000, limit = 0xF000,
        reserve_size = 0xFFFFFFFFFFFFF000, commit_step = 65536\<rparr>
   \<and> calls (snd (snd (arena_init ex_arena0 ex_os 0xFFFFFFFFFFFFF000 65536))) =
       [Reserve 4096, Guard 0xF000 4096, Guard 0xF000 4096]
   \<and> \<not> ordered (fst (snd (arena_init ex_arena0 ex_os 0xFFFFFFFFFFFFF000 65536)))"
  by (simp add: arena_init_eq Let_def ex_os_simps align_up_def ordered_def)

lemma alloc_wrap_breaks_order:
  "ordered ex_arena
   \<and> arena_alloc ex_arena ex_os1 0xFFFFFFFFFFFFFFF8 =
       (Some 0x10000, ex_arena\<lparr>cursor := 0xFFF8\<rparr>, ex_os1)
   \<and> \<not> ordered (ex_arena\<lparr>cursor := 0xFFF8\<rparr>)"
  by (simp add: ex_arena_def align_up_def ARENA_ALIGNMENT_def arena_alloc_def ordered_def)

section \<open>Failure of an allocation\<close>

text \<open>
  Claim C3. \<^verbatim>\<open>arena_alloc\<close> returns null exactly when the candidate cursor
  \<open>cursor + align_up(size, 8)\<close> exceeds \<open>limit\<close>, or the commit call it needs (the
  candidate is within \<open>limit\<close> and beyond \<open>commit\<close>) is refused by the system. Whenever
  it returns null the arena structure is the one it was given. When the candidate exceeds
  \<open>limit\<close> the system sees no call at all; when the candidate is within \<open>limit\<close> and
  beyond \<open>commit\<close>, exactly one commit call is made, for \<open>need\<close> bytes at \<open>commit\<close>.
\<close>

theorem arena_alloc_failure:
  "let next = cursor a + align_up sz ARENA_ALIGNMENT;
       need = align_up (next - commit a) (commit_step a);
       r = arena_alloc a w sz
   in (fst r = None \<longleftrightarrow>
         limit a < next \<or> (commit a < next \<and> \<not> commit_ans w (calls w) (commit a) need))
      \<and> (fst r = None \<longrightarrow> fst (snd r) = a)
      \<and> (limit a < next \<longrightarrow> snd (snd r) = w)
      \<and> (\<not> limit a < next \<and> commit a < next \<longrightarrow>
           calls (snd (snd r)) = calls w @ [Commit (commit a) need])"
proof -
  let ?next = "cursor a + align_up sz ARENA_ALIGNMENT"
  consider (space) "limit a < ?next"
    | (extend) "?next \<le> limit a" "commit a < ?next"
    | (plain) "?next \<le> limit a" "?next \<le> commit a"
    by fastforce
  then show ?thesis
  proof cases
    case space
    then show ?thesis
      by (simp add: arena_alloc_out_of_space Let_def)
  next
    case extend
    then show ?thesis
      by (simp add: arena_alloc_extend Let_def not_less [symmetric])
  next
    case plain
    then show ?thesis
      by (simp add: arena_alloc_committed Let_def not_less [symmetric])
  qed
qed

theorem arena_alloc_failure_witness:
  "arena_alloc ex_full ex_os1 64 = (None, ex_full, ex_os1)
   \<and> arena_alloc ex_arena ex_os_tight 64 =
       (None, ex_arena, ex_os_tight\<lparr>calls := calls ex_os_tight @ [Commit 0x10000 65536]\<rparr>)"
proof -
  have n: "align_up 64 ARENA_ALIGNMENT = 64" "align_up 64 65536 = 65536"
    by (simp_all add: align_up_def ARENA_ALIGNMENT_def)
  have full: "cursor ex_full = 0x20000" "limit ex_full = 0x20000" "commit ex_full = 0x20000"
    "commit_step ex_full = 65536"
    by (simp_all add: ex_full_def ex_arena_def)
  have fresh: "cursor ex_arena = 0x10000" "limit ex_arena = 0x20000" "commit ex_arena = 0x10000"
    "commit_step ex_arena = 65536"
    by (simp_all add: ex_arena_def)
  have tight: "commit_ans ex_os_tight l p m = False" for l p m
    by (simp add: ex_os_tight_def)
  have "fst (arena_alloc ex_full ex_os1 64) = None
      \<and> fst (snd (arena_alloc ex_full ex_os1 64)) = ex_full
      \<and> snd (snd (arena_alloc ex_full ex_os1 64)) = ex_os1"
    using arena_alloc_failure [of ex_full 64 ex_os1]
    by (simp add: Let_def n full)
  moreover have "fst (arena_alloc ex_arena ex_os_tight 64) = None
      \<and> fst (snd (arena_alloc ex_arena ex_os_tight 64)) = ex_arena
      \<and> calls (snd (snd (arena_alloc ex_arena ex_os_tight 64))) =
          calls ex_os_tight @ [Commit 0x10000 65536]"
    using arena_alloc_failure [of ex_arena 64 ex_os_tight]
    by (simp add: Let_def n fresh tight)
  moreover have "snd (snd (arena_alloc ex_arena ex_os_tight 64)) =
      ex_os_tight\<lparr>calls := calls (snd (snd (arena_alloc ex_arena ex_os_tight 64)))\<rparr>"
    by (simp add: arena_alloc_def Let_def os_commit_def)
  ultimately show ?thesis
    by (simp add: prod_eq_iff)
qed

section \<open>Growth of the committed range\<close>

text \<open>
  Claim C4 says that \<open>commit - base\<close> is always a whole number of commit steps. The code
  rounds with a bit mask, which rounds to a multiple only of a power of two. After
  \<^verbatim>\<open>arena_init(&a, 65536, 12288)\<close> on a system with 4 KiB pages the recorded step is
  \<open>12288\<close>, and the first \<^verbatim>\<open>arena_alloc(&a, 8)\<close> commits \<open>align_up(8, 12288) = 4096\<close>
  bytes: \<open>commit - base = 4096\<close> is not a multiple of \<open>12288\<close>.
\<close>

theorem commit_step_not_whole:
  "arena_init ex_arena0 ex_os 65536 12288 = (1, ex_odd, ex_os1)
   \<and> whole_steps ex_odd
   \<and> arena_alloc ex_odd ex_os1 8 =
       (Some 0x10000, ex_odd\<lparr>commit := 0x11000, cursor := 0x10008\<rparr>,
        ex_os1\<lparr>calls := calls ex_os1 @ [Commit 0x10000 4096]\<rparr>)
   \<and> \<not> whole_steps (ex_odd\<lparr>commit := 0x11000, cursor := 0x10008\<rparr>)"
  by (simp add: arena_init_eq Let_def ex_os_simps ex_os1_simps ex_odd_def ex_arena_def
      ex_os1_def align_up_def ARENA_ALIGNMENT_def arena_alloc_def os_commit_def whole_steps_def)

section \<open>Initialisation\<close>

text \<open>
  Claim C5, as the code has it. \<^verbatim>\<open>arena_init\<close> replaces both requests by
  \<open>align_up(request, page)\<close>, computed modulo \<open>2 ^ 64\<close>; for a page size \<open>2 ^ k\<close> and a
  request of at most \<open>2 ^ 64 - 2 ^ k\<close> this is the request rounded up to the next multiple
  of the page size. When the reservation succeeds it returns \<open>1\<close> with
  \<open>cursor = commit = base\<close>, \<open>limit = base + reserve_size\<close> and both rounded values
  recorded, after one reserve call and two guard calls and no commit call. When the
  reservation fails it returns \<open>0\<close> with the arena structure as it was given, and the
  reserve call is the only call made.
\<close>

theorem arena_init_result:
  "let pg = page w;
       rs = align_up r pg;
       cs = align_up c pg;
       total = rs + pg * 2;
       mem = reserve_ans w (calls w) total;
       res = arena_init a w r c;
       a' = fst (snd res);
       w' = snd (snd res)
   in (mem = 0 \<longrightarrow> res = (0, a, w\<lparr>calls := calls w @ [Reserve total]\<rparr>))
      \<and> (mem \<noteq> 0 \<longrightarrow>
            fst res = 1 \<and> base a' = mem + pg \<and> cursor a' = base a' \<and> commit a' = base a'
            \<and> limit a' = base a' + reserve_size a'
            \<and> reserve_size a' = rs \<and> commit_step a' = cs
            \<and> calls w' = calls w @ [Reserve total, Guard mem pg, Guard (mem + pg + rs) pg]
            \<and> filter is_commit (calls w') = filter is_commit (calls w))
      \<and> (k < 64 \<and> pg = 2 ^ k \<and> unat r + 2 ^ k \<le> 2 ^ 64 \<longrightarrow>
            unat rs = round_up (unat r) (2 ^ k))
      \<and> (k < 64 \<and> pg = 2 ^ k \<and> unat c + 2 ^ k \<le> 2 ^ 64 \<longrightarrow>
            unat cs = round_up (unat c) (2 ^ k))"
  by (simp add: arena_init_eq Let_def unat_align_up_round)

theorem arena_init_result_witness:
  "arena_init ex_arena0 ex_os 65000 65535 = (1, ex_arena, ex_os1)
   \<and> unat (reserve_size ex_arena) = round_up 65000 4096
   \<and> unat (commit_step ex_arena) = round_up 65535 4096
   \<and> filter is_commit (calls ex_os1) = []
   \<and> arena_init ex_arena0 ex_os_denied 65000 65535 =
        (0, ex_arena0, ex_os_denied\<lparr>calls := [Reserve 73728]\<rparr>)"
proof -
  have al: "align_up 65000 4096 = 65536" "align_up 65535 4096 = 65536"
    by (simp_all add: align_up_def)
  have i: "arena_init ex_arena0 ex_os 65000 65535 = (1, ex_arena, ex_os1)"
    by (simp add: arena_init_eq Let_def ex_os_def ex_arena_def ex_os1_def al)
  have f: "reserve_size ex_arena = 65536" "commit_step ex_arena = 65536"
    by (simp_all add: ex_arena_def)
  have os: "page ex_os = 4096" "calls ex_os = []" "reserve_ans ex_os l n = 0xF000" for l n
    by (simp_all add: ex_os_def)
  have os': "page ex_os_denied = 4096" "calls ex_os_denied = []"
    "reserve_ans ex_os_denied l n = 0" for l n
    by (simp_all add: ex_os_def ex_os_denied_def)
  have "unat (65536 :: size_t) = round_up 65000 4096
      \<and> unat (65536 :: size_t) = round_up 65535 4096
      \<and> filter is_commit (calls ex_os1) = []"
    using arena_init_result [where w = ex_os and r = 65000 and c = 65535 and a = ex_arena0
        and k = 12]
    by (simp add: Let_def os i al)
  moreover have "arena_init ex_arena0 ex_os_denied 65000 65535 =
        (0, ex_arena0, ex_os_denied\<lparr>calls := [Reserve 73728]\<rparr>)"
    using arena_init_result [where w = ex_os_denied and r = 65000 and c = 65535
        and a = ex_arena0 and k = 12]
    by (simp add: Let_def os' al)
  ultimately show ?thesis
    using i by (simp add: f)
qed

text \<open>
  A request above \<open>2 ^ 64 - page\<close> is not rounded up: the sum wraps, and a request of
  \<open>SIZE_MAX\<close> bytes is recorded as a reserve of \<open>0\<close> bytes.
\<close>

theorem arena_init_round_counterexample:
  "fst (arena_init ex_arena0 ex_os SIZE_MAX 65536) = 1
   \<and> reserve_size (fst (snd (arena_init ex_arena0 ex_os SIZE_MAX 65536))) = 0
   \<and> reserve_size (fst (snd (arena_init ex_arena0 ex_os SIZE_MAX 65536))) < SIZE_MAX"
  by (simp add: arena_init_eq Let_def ex_os_def SIZE_MAX_def align_up_def word_gt_0)

section \<open>Reset\<close>

text \<open>
  Claim C6. \<^verbatim>\<open>arena_reset\<close> sets \<open>cursor\<close> to \<open>base\<close> and leaves \<open>base\<close>,
  \<open>commit\<close>, \<open>limit\<close>, \<open>reserve_size\<close> and \<open>commit_step\<close> as they were. A run of
  allocations after the reset whose candidate cursors all stay at or below the commit
  boundary reached before the reset makes no call to the system, and leaves \<open>commit\<close>
  where it was.
\<close>

theorem arena_reset_frame:
  "cursor (arena_reset a) = base a
   \<and> arena_reset a = a\<lparr>cursor := base a\<rparr>
   \<and> base (arena_reset a) = base a \<and> commit (arena_reset a) = commit a
   \<and> limit (arena_reset a) = limit a \<and> reserve_size (arena_reset a) = reserve_size a
   \<and> commit_step (arena_reset a) = commit_step a
   \<and> (within_commit (arena_reset a) w ss \<longrightarrow>
        snd (snd (alloc_seq (arena_reset a) w ss)) = w \<and>
        commit (fst (snd (alloc_seq (arena_reset a) w ss))) = commit a)"
  using within_commit_run [of "arena_reset a" w ss]
  by (simp add: arena_reset_def)

theorem arena_reset_frame_witness:
  "arena_reset ex_used = ex_arena\<lparr>commit := 0x20000\<rparr> \<and>
   alloc_seq (arena_reset ex_used) ex_os1 [64, 100, 0] =
     ([Some 0x10000, Some 0x10040, Some 0x100A8], ex_used\<lparr>cursor := 0x100A8\<rparr>, ex_os1)"
proof -
  have run: "alloc_seq (arena_reset ex_used) ex_os1 [64, 100, 0] =
     ([Some 0x10000, Some 0x10040, Some 0x100A8], ex_used\<lparr>cursor := 0x100A8\<rparr>, ex_os1)"
    by (simp add: arena_reset_def ex_used_def ex_arena_def arena_alloc_def align_up_def
        ARENA_ALIGNMENT_def Let_def)
  have "within_commit (arena_reset ex_used) ex_os1 [64, 100, 0]"
    by (simp add: arena_reset_def ex_used_def ex_arena_def arena_alloc_def align_up_def
        ARENA_ALIGNMENT_def Let_def)
  with arena_reset_frame [of ex_used ex_os1 "[64, 100, 0]"] run show ?thesis
    by (simp add: ex_used_def ex_arena_def)
qed

section \<open>Zero-size requests\<close>

text \<open>
  Claim C7. On an arena whose fields are ordered (\<open>base \<le> cursor \<le> commit \<le> limit\<close>, the
  invariant of an Active arena), \<^verbatim>\<open>arena_alloc\<close> with size \<open>0\<close> succeeds:
  \<open>align_up(0, 8) = 0\<close>, the call returns the current cursor, leaves the arena and the
  system as they were, and any number of such calls in a row return the same address.
\<close>

theorem zero_size_alloc:
  assumes "ordered a"
  shows "align_up 0 ARENA_ALIGNMENT = 0
     \<and> arena_alloc a w 0 = (Some (cursor a), a, w)
     \<and> alloc_seq a w (replicate n 0) = (replicate n (Some (cursor a)), a, w)"
  using assms by (simp add: arena_alloc_zero alloc_seq_zeros)

theorem zero_size_alloc_witness:
  "ordered ex_arena \<and> arena_alloc ex_arena ex_os1 0 = (Some 0x10000, ex_arena, ex_os1)
   \<and> alloc_seq ex_arena ex_os1 [0, 0, 0] =
       ([Some 0x10000, Some 0x10000, Some 0x10000], ex_arena, ex_os1)"
proof -
  have o: "ordered ex_arena"
    by (simp add: ordered_def ex_arena_def)
  have c: "cursor ex_arena = 0x10000"
    by (simp add: ex_arena_def)
  have r: "replicate 3 (x::'a) = [x, x, x]" for x
    by (simp add: numeral_3_eq_3)
  from zero_size_alloc [OF o, of ex_os1 3] o show ?thesis
    by (simp add: c r)
qed

section \<open>The benchmark scenario\<close>

text \<open>
  Claim C8. Let \<^verbatim>\<open>arena_init(&a, 1 MiB, 64 KiB)\<close> succeed on a system whose page size
  is a power of two dividing 64 KiB, whose commits all succeed, and where the \<open>64\<close> bytes
  after \<open>base + 1 MiB\<close> are still addresses below \<open>2 ^ 64\<close>. Then \<open>16384\<close> calls
  \<^verbatim>\<open>arena_alloc(&a, 64)\<close> in a row all succeed, returning \<open>base\<close>, \<open>base + 64\<close>, ...;
  they leave \<open>cursor = limit\<close>; and one more such call finds its candidate beyond
  \<open>limit\<close> and returns null, with the arena and the system left as they were.
\<close>

theorem bench_scenario:
  assumes init: "arena_init a0 w 1048576 65536 = (1, a1, w1)"
    and pg: "page w = 2 ^ j" "j \<le> 16"
    and room: "unat (base a1) + 1048576 + 64 < 2 ^ 64"
    and ok: "\<forall>l p n. commit_ans w l p n"
  shows "fst (alloc_seq a1 w1 (replicate 16384 64)) =
           map (\<lambda>i. Some (base a1 + 64 * of_nat i)) [0..<16384]
     \<and> cursor (fst (snd (alloc_seq a1 w1 (replicate 16384 64)))) = limit a1
     \<and> limit (fst (snd (alloc_seq a1 w1 (replicate 16384 64))))
          < cursor (fst (snd (alloc_seq a1 w1 (replicate 16384 64)))) + align_up 64 ARENA_ALIGNMENT
     \<and> arena_alloc (fst (snd (alloc_seq a1 w1 (replicate 16384 64))))
          (snd (snd (alloc_seq a1 w1 (replicate 16384 64)))) 64 =
        (None, fst (snd (alloc_seq a1 w1 (replicate 16384 64))),
               snd (snd (alloc_seq a1 w1 (replicate 16384 64))))"
proof -
  let ?a2 = "fst (snd (alloc_seq a1 w1 (replicate 16384 64)))"
  let ?w2 = "snd (snd (alloc_seq a1 w1 (replicate 16384 64)))"
  note f = arena_init_fields [OF init]
  have "(2::nat) ^ j dvd 2 ^ 20" "(2::nat) ^ j dvd 2 ^ 16"
    using pg(2) by (intro le_imp_power_dvd; simp)+
  then have "align_up 1048576 (2 ^ j) = 1048576" "align_up 65536 (2 ^ j) = 65536"
    using pg(2) by (intro align_up_dvd_id; simp)+
  then have rs: "reserve_size a1 = 1048576" and cs: "commit_step a1 = 2 ^ 16"
    using f(4,5) by (simp_all add: pg(1))
  have "unat (base a1) + unat (1048576 :: 64 word) < 2 ^ LENGTH(64)"
    using room by simp
  then have "unat (base a1 + 1048576) = unat (base a1) + unat (1048576 :: 64 word)"
    by (rule unat_add_lem [THEN iffD1])
  then have lim: "unat (limit a1) = unat (base a1) + 1048576"
    by (simp add: f(3) rs)
  have st: "steady 16 a1"
    using init _ cs by (rule steady_init) (use room in \<open>simp_all add: rs\<close>)
  have fit: "unat (cursor a1) + 64 * 16384 \<le> unat (limit a1)"
    by (simp add: f(1) lim)
  have ok1: "\<forall>l p n. commit_ans w1 l p n"
    using ok arena_init_os [OF init] by simp
  note run = alloc_seq_64 [OF st fit ok1]
  have ptrs: "fst (alloc_seq a1 w1 (replicate 16384 64)) =
      map (\<lambda>i. Some (base a1 + 64 * of_nat i)) [0..<16384]"
    using run by (simp only: f(1))
  have "cursor ?a2 = cursor a1 + 64 * of_nat 16384"
    using run by blast
  then have c2: "cursor ?a2 = limit a1"
    by (simp add: f(1,3) rs)
  have l2: "limit ?a2 = limit a1"
    using run by blast
  have "unat (limit a1) + unat (64 :: 64 word) < 2 ^ LENGTH(64)"
    using room by (simp add: lim)
  then have "unat (limit a1 + 64) = unat (limit a1) + unat (64 :: 64 word)"
    by (rule unat_add_lem [THEN iffD1])
  then have full: "limit ?a2 < cursor ?a2 + align_up 64 ARENA_ALIGNMENT"
    by (simp add: c2 l2 align_up_64 word_less_nat_alt)
  then have "arena_alloc ?a2 ?w2 64 = (None, ?a2, ?w2)"
    by (rule arena_alloc_out_of_space)
  with ptrs c2 full show ?thesis
    by blast
qed

theorem bench_scenario_witness:
  "arena_init ex_arena0 ex_os 1048576 65536 = (1, ex_big, ex_os4)
   \<and> fst (alloc_seq ex_big ex_os4 (replicate 16384 64)) =
           map (\<lambda>i. Some (base ex_big + 64 * of_nat i)) [0..<16384]
   \<and> cursor (fst (snd (alloc_seq ex_big ex_os4 (replicate 16384 64)))) = limit ex_big
   \<and> limit (fst (snd (alloc_seq ex_big ex_os4 (replicate 16384 64))))
          < cursor (fst (snd (alloc_seq ex_big ex_os4 (replicate 16384 64)))) + align_up 64 ARENA_ALIGNMENT
   \<and> arena_alloc (fst (snd (alloc_seq ex_big ex_os4 (replicate 16384 64))))
          (snd (snd (alloc_seq ex_big ex_os4 (replicate 16384 64)))) 64 =
        (None, fst (snd (alloc_seq ex_big ex_os4 (replicate 16384 64))),
               snd (snd (alloc_seq ex_big ex_os4 (replicate 16384 64))))"
proof -
  have i: "arena_init ex_arena0 ex_os 1048576 65536 = (1, ex_big, ex_os4)"
    by (simp add: arena_init_eq Let_def ex_os_simps ex_big_def ex_os4_def align_up_def)
  have p: "page ex_os = 2 ^ 12" and j: "(12::nat) \<le> 16"
    by (simp_all add: ex_os_simps)
  have r: "unat (base ex_big) + 1048576 + 64 < 2 ^ 64"
    by (simp add: ex_big_def)
  have c: "\<forall>l p n. commit_ans ex_os l p n"
    by (simp add: ex_os_simps)
  show ?thesis
    by (rule conjI [OF i bench_scenario [OF i p j r c]])
qed

section \<open>Requests that wrap around\<close>

text \<open>
  Claim C9. There is no overflow check: for every size above \<open>SIZE_MAX - 7\<close>,
  \<open>align_up(size, 8)\<close> wraps around to \<open>0\<close>, so on an ordered arena the call succeeds,
  returns the cursor and leaves it where it was, although the size requested exceeds the
  space \<open>limit - cursor\<close> that remains.
\<close>

theorem alloc_size_wraps:
  assumes "SIZE_MAX - 7 < sz" and "ordered a" and "limit a - cursor a \<le> SIZE_MAX - 7"
  shows "align_up sz ARENA_ALIGNMENT = 0
     \<and> arena_alloc a w sz = (Some (cursor a), a, w)
     \<and> limit a - cursor a < sz"
proof -
  have z: "align_up sz ARENA_ALIGNMENT = 0"
    using assms(1) by (rule align_up_wraps)
  have "arena_alloc a w sz = (Some (cursor a), a, w)"
    using assms(2) z by (rule arena_alloc_stay)
  moreover have "limit a - cursor a < sz"
    using assms(1,3) by simp
  ultimately show ?thesis
    using z by simp
qed

theorem alloc_size_wraps_witness:
  "align_up SIZE_MAX ARENA_ALIGNMENT = 0
   \<and> arena_alloc ex_arena ex_os1 SIZE_MAX = (Some 0x10000, ex_arena, ex_os1)
   \<and> limit ex_arena - cursor ex_arena = 0x10000 \<and> (0x10000 :: size_t) < SIZE_MAX"
proof -
  have big: "SIZE_MAX - 7 < SIZE_MAX"
    by (simp add: SIZE_MAX_def)
  have o: "ordered ex_arena"
    by (simp add: ordered_def ex_arena_def)
  have room: "limit ex_arena - cursor ex_arena \<le> SIZE_MAX - 7"
    by (simp add: ex_arena_def SIZE_MAX_def)
  have c: "cursor ex_arena = 0x10000" "limit ex_arena = 0x20000"
    by (simp_all add: ex_arena_def)
  have "(0x10000 :: size_t) < SIZE_MAX"
    by (simp add: SIZE_MAX_def)
  with alloc_size_wraps [OF big o room, of ex_os1] show ?thesis
    by (simp add: c)
qed

section \<open>An arena with an empty reserve\<close>

text \<open>
  Claim C10, as the code has it. If \<^verbatim>\<open>arena_init(&a, 0, C)\<close> succeeds, the recorded
  reserve is \<open>0\<close> and \<open>limit = base\<close>. From then on \<^verbatim>\<open>arena_alloc(&a, s)\<close> returns
  null and leaves the arena and the system as they were for every \<open>s\<close> with
  \<open>align_up(s, 8) > 0\<close> whose candidate \<open>base + align_up(s, 8)\<close> does not wrap around, and
  \<^verbatim>\<open>arena_alloc(&a, 0)\<close> returns \<open>base\<close> without any call to the system.
\<close>

theorem init_zero_reserve:
  assumes "arena_init a0 w 0 c = (1, a, w1)"
  shows "reserve_size a = 0 \<and> limit a = base a
     \<and> (0 < align_up s ARENA_ALIGNMENT
          \<and> unat (base a) + unat (align_up s ARENA_ALIGNMENT) < 2 ^ 64
          \<longrightarrow> arena_alloc a w' s = (None, a, w'))
     \<and> arena_alloc a w' 0 = (Some (base a), a, w')"
proof -
  note f = arena_init_fields [OF assms]
  have r: "reserve_size a = 0"
    using f(4) by simp
  then have l: "limit a = base a"
    using f(3) by simp
  have "ordered a"
    by (simp add: ordered_def f(1,2) l)
  then have z: "arena_alloc a w' 0 = (Some (base a), a, w')"
    using arena_alloc_zero [of a w'] by (simp add: f(1))
  have "arena_alloc a w' s = (None, a, w')"
    if "0 < align_up s ARENA_ALIGNMENT"
      and "unat (base a) + unat (align_up s ARENA_ALIGNMENT) < 2 ^ 64"
    using that by (intro arena_alloc_no_room) (simp_all add: f(1) l)
  with r l z show ?thesis
    by blast
qed

theorem init_zero_reserve_witness:
  "arena_init ex_arena0 ex_os 0 65536 = (1, ex_empty, ex_os2)
   \<and> reserve_size ex_empty = 0 \<and> limit ex_empty = base ex_empty
   \<and> arena_alloc ex_empty ex_os2 1 = (None, ex_empty, ex_os2)
   \<and> arena_alloc ex_empty ex_os2 0 = (Some 0x10000, ex_empty, ex_os2)"
proof -
  have i: "arena_init ex_arena0 ex_os 0 65536 = (1, ex_empty, ex_os2)"
    by (simp add: arena_init_eq Let_def ex_os_simps ex_empty_def ex_os2_def align_up_def)
  have a: "align_up 1 ARENA_ALIGNMENT = 8"
    by (simp add: align_up_def ARENA_ALIGNMENT_def)
  have b: "base ex_empty = 0x10000"
    by (simp add: ex_empty_def)
  from init_zero_reserve [OF i, of 1 ex_os2] i show ?thesis
    by (simp add: a b)
qed

text \<open>
  A request whose candidate wraps around is not refused: with \<open>base = 0x10000\<close>, a request
  of \<open>2 ^ 64 - 0x10000\<close> bytes has the candidate \<open>0\<close>, which is not beyond \<open>limit\<close>, and
  the call succeeds.
\<close>

theorem init_zero_reserve_counterexample:
  "arena_init ex_arena0 ex_os 0 65536 = (1, ex_empty, ex_os2)
   \<and> 0 < align_up 0xFFFFFFFFFFFF0000 ARENA_ALIGNMENT
   \<and> arena_alloc ex_empty ex_os2 0xFFFFFFFFFFFF0000 =
       (Some 0x10000, ex_empty\<lparr>cursor := 0\<rparr>, ex_os2)"
  by (simp add: arena_init_eq Let_def ex_os_simps ex_empty_def ex_os2_def align_up_def
      ARENA_ALIGNMENT_def arena_alloc_def)

section \<open>Further invariants\<close>

text \<open>
  The cursor stays a multiple of \<open>8\<close> bytes away from \<open>base\<close>: this holds after a
  successful \<^verbatim>\<open>arena_init\<close> and is preserved by \<^verbatim>\<open>arena_reset\<close> and by every
  \<^verbatim>\<open>arena_alloc\<close>, whatever the arguments (the distance is taken modulo \<open>2 ^ 64\<close>).
\<close>

theorem cursor_aligned:
  "(arena_init a0 w0 r c = (1, a1, w1) \<longrightarrow> aligned8 a1)
   \<and> (aligned8 a \<longrightarrow> aligned8 (arena_reset a))
   \<and> (aligned8 a \<longrightarrow> aligned8 (fst (snd (arena_alloc a w sz))))"
proof -
  have "aligned8 a1" if "arena_init a0 w0 r c = (1, a1, w1)"
    using arena_init_fields(1) [OF that] by (simp add: aligned8_def)
  moreover have "aligned8 (arena_reset a)"
    by (simp add: aligned8_def arena_reset_def)
  ultimately show ?thesis
    using aligned8_alloc [of a w sz] by blast
qed

theorem cursor_aligned_witness:
  "aligned8 ex_arena \<and> aligned8 (arena_reset ex_arena)
   \<and> aligned8 (fst (snd (arena_alloc ex_arena ex_os1 13)))
   \<and> cursor (fst (snd (arena_alloc ex_arena ex_os1 13))) = 0x10010"
proof -
  have c: "cursor (fst (snd (arena_alloc ex_arena ex_os1 13))) = 0x10010"
    by (simp add: arena_alloc_def Let_def ex_arena_def ex_os1_simps os_commit_def align_up_def
        ARENA_ALIGNMENT_def)
  have a: "aligned8 ex_arena"
    using cursor_aligned [of ex_arena0 ex_os 65536 65536 ex_arena ex_os1] ex_init by simp
  with cursor_aligned [of ex_arena0 ex_os 65536 65536 ex_arena ex_os1 ex_arena ex_os1 13] c
  show ?thesis
    by simp
qed

text \<open>
  For a commit step that is a power of two, \<open>commit - base\<close> stays a whole number of
  commit steps: this holds after a successful \<^verbatim>\<open>arena_init\<close> and is preserved by
  \<^verbatim>\<open>arena_reset\<close> and by every \<^verbatim>\<open>arena_alloc\<close>.
\<close>

theorem pow2_steps_whole:
  "(arena_init a0 w0 r c = (1, a1, w1) \<longrightarrow> whole_steps a1)
   \<and> (whole_steps a \<longrightarrow> whole_steps (arena_reset a))
   \<and> (k < 64 \<and> commit_step a = 2 ^ k \<and> whole_steps a
        \<longrightarrow> whole_steps (fst (snd (arena_alloc a w sz))))"
proof -
  have "whole_steps a1" if "arena_init a0 w0 r c = (1, a1, w1)"
    using arena_init_fields(2) [OF that] by (simp add: whole_steps_def)
  moreover have "whole_steps (arena_reset a)" if "whole_steps a"
    using that by (simp add: whole_steps_def arena_reset_def)
  ultimately show ?thesis
    using whole_steps_alloc [of k a w sz] by blast
qed

theorem pow2_steps_whole_witness:
  "whole_steps ex_arena \<and> whole_steps (arena_reset ex_arena)
   \<and> whole_steps (fst (snd (arena_alloc ex_arena ex_os1 100)))
   \<and> commit (fst (snd (arena_alloc ex_arena ex_os1 100))) = 0x20000"
proof -
  have c: "commit (fst (snd (arena_alloc ex_arena ex_os1 100))) = 0x20000"
    by (simp add: arena_alloc_def Let_def ex_arena_def ex_os1_simps os_commit_def align_up_def
        ARENA_ALIGNMENT_def)
  have s: "commit_step ex_arena = 2 ^ 16"
    by (simp add: ex_arena_def)
  have a: "whole_steps ex_arena"
    using pow2_steps_whole [of ex_arena0 ex_os 65536 65536 ex_arena ex_os1] ex_init by simp
  with pow2_steps_whole [of ex_arena0 ex_os 65536 65536 ex_arena ex_os1 ex_arena 16 ex_os1 100]
    c s
  show ?thesis
    by simp
qed

text \<open>
  Where the ordering does hold. Let the recorded commit step be a power of two \<open>2 ^ k\<close>
  that divides the recorded \<open>reserve_size\<close>, and let \<open>base + reserve_size\<close> not wrap
  around. Then a successful \<^verbatim>\<open>arena_init\<close> establishes \<open>steady\<close>, which contains the
  ordering \<open>base \<le> cursor \<le> commit \<le> limit\<close>; \<^verbatim>\<open>arena_reset\<close> preserves it; a failed
  \<^verbatim>\<open>arena_alloc\<close> returns the arena it was given; and every \<^verbatim>\<open>arena_alloc\<close> whose
  candidate \<open>cursor + align_up(size, 8)\<close> does not wrap around preserves it.
\<close>

theorem steady_preserved:
  "(arena_init a0 w0 r c = (1, a1, w1) \<and> k < 64 \<and> commit_step a1 = 2 ^ k
      \<and> 2 ^ k dvd unat (reserve_size a1) \<and> unat (base a1) + unat (reserve_size a1) < 2 ^ 64
      \<longrightarrow> steady k a1)
   \<and> (steady k a \<longrightarrow> ordered a \<and> steady k (arena_reset a))
   \<and> (fst (arena_alloc a w sz) = None \<longrightarrow> fst (snd (arena_alloc a w sz)) = a)
   \<and> (steady k a \<and> unat (cursor a) + unat (align_up sz ARENA_ALIGNMENT) < 2 ^ 64
      \<longrightarrow> steady k (fst (snd (arena_alloc a w sz))))"
  using steady_init [of a0 w0 r c a1 w1 k] steady_ordered [of k a] steady_reset [of k a]
    arena_alloc_None [of a w sz] steady_alloc [of k a sz w]
  by blast

theorem steady_preserved_witness:
  "steady 16 ex_arena \<and> ordered ex_arena \<and> steady 16 (arena_reset ex_arena)
   \<and> steady 16 (fst (snd (arena_alloc ex_arena ex_os1 100)))
   \<and> arena_alloc ex_arena ex_os1 100 =
       (Some 0x10000, ex_arena\<lparr>commit := 0x20000, cursor := 0x10068\<rparr>,
        ex_os1\<lparr>calls := calls ex_os1 @ [Commit 0x10000 65536]\<rparr>)
   \<and> fst (arena_alloc ex_full ex_os1 64) = None
   \<and> fst (snd (arena_alloc ex_full ex_os1 64)) = ex_full"
proof -
  have f: "commit_step ex_arena = 2 ^ 16" "unat (reserve_size ex_arena) = 65536"
    "unat (base ex_arena) = 65536" "unat (cursor ex_arena) = 65536"
    by (simp_all add: ex_arena_def)
  have n: "unat (align_up 100 ARENA_ALIGNMENT) = 104"
    by (simp add: align_up_def ARENA_ALIGNMENT_def)
  have r: "arena_alloc ex_arena ex_os1 100 =
       (Some 0x10000, ex_arena\<lparr>commit := 0x20000, cursor := 0x10068\<rparr>,
        ex_os1\<lparr>calls := calls ex_os1 @ [Commit 0x10000 65536]\<rparr>)"
    by (simp add: arena_alloc_def Let_def ex_arena_def ex_os1_simps os_commit_def align_up_def
        ARENA_ALIGNMENT_def)
  have x: "fst (arena_alloc ex_full ex_os1 64) = None"
    by (simp add: arena_alloc_def Let_def ex_full_def ex_arena_def align_up_def
        ARENA_ALIGNMENT_def)
  have s: "steady 16 ex_arena"
    using steady_preserved [of ex_arena0 ex_os 65536 65536 ex_arena ex_os1 16]
    by (simp add: ex_init f)
  moreover have "fst (snd (arena_alloc ex_full ex_os1 64)) = ex_full"
    using steady_preserved [where a = ex_full and w = ex_os1 and sz = 64] x by simp
  ultimately show ?thesis
    using steady_preserved
      [of ex_arena0 ex_os 65536 65536 ex_arena ex_os1 16 ex_arena ex_os1 100] x
    by (simp add: f n r)
qed

end
